theory Spec2Isabelle
  imports Complex_Main "HOL-Library.Word" "HOL-Library.AList"
begin

unbundle bit_operations_syntax

section \<open>Shared data\<close>

text \<open>
  Bytes of an ArrayBuffer are 8-bit words, the 16-bit code units of a JavaScript string
  and the elements of a Uint16Array are 16-bit words, and a Float32Array element is its
  32-bit IEEE pattern: "bit-identical" is equality of these words.
\<close>

type_synonym byte = "8 word"
type_synonym u16 = "16 word"
type_synonym float32 = "32 word"

section \<open>Block assembler (StreamingAssembler.ts)\<close>

text \<open>
  A DownloadChunk as DownloadManager.ts declares it. \<open>end\<close> is a keyword of the
  theory language, so the field is \<open>end_offset\<close>; \<open>downloadTime\<close> is a timing
  measurement that the assembler never reads and is left out.
\<close>

record DownloadChunk =
  index :: nat
  start :: int
  end_offset :: int
  data :: "byte list"

text \<open>
  An AssemblyChunk. \<open>id\<close> is the text \<open>assembly-<storageIndex>\<close> and
  \<open>assemblyTime\<close> a timing measurement; neither is read again, and both are left out.
  The payload field \<open>data\<close> of the source is \<open>payload\<close> here, because a record
  field name is a constant and \<open>data\<close> is the field of DownloadChunk.
\<close>

record AssemblyChunk =
  storageIndex :: nat
  downloadChunks :: "DownloadChunk list"
  totalSize :: nat
  payload :: "byte list"
  canStartPlayback :: bool

text \<open>
  The callbacks \<open>onPlaybackReady\<close> and \<open>onChunkAssembled\<close> of
  StreamingAssemblerOptions, recorded in call order. \<open>onProgress\<close> reports two counts
  and is left out, with \<open>reportProgress\<close> and \<open>getStats\<close>, which change no state.
\<close>

datatype assembler_event =
  PlaybackReady AssemblyChunk
  | ChunkAssembled AssemblyChunk

text \<open>
  The assembler object. The two Map fields are association lists in insertion order
  (\<open>Map.set\<close> is \<open>AList.update\<close>, \<open>Map.get\<close> is \<open>map_of\<close>, \<open>Map.delete\<close> is
  \<open>AList.delete\<close>); the source's \<open>downloadChunks\<close> map is \<open>pendingChunks\<close> here.
  \<open>currentAssemblyBuffer\<close> is \<open>None\<close> for \<open>null\<close>. \<open>events\<close> is the log of
  the callbacks invoked so far.
\<close>

record StreamingAssembler =
  storageChunkSize :: nat
  playbackChunkSize :: nat
  pendingChunks :: "(nat \<times> DownloadChunk) list"
  assembledChunks :: "(nat \<times> AssemblyChunk) list"
  totalExpectedSize :: nat
  isPlaybackReady :: bool
  nextStorageIndex :: nat
  currentAssemblyBuffer :: "byte list option"
  currentAssemblySize :: nat
  currentDownloadChunks :: "DownloadChunk list"
  events :: "assembler_event list"

text \<open>The constructor: the field initialisers of the class.\<close>

definition new_assembler :: "nat \<Rightarrow> nat \<Rightarrow> StreamingAssembler" where
  "new_assembler storage playback =
     \<lparr> storageChunkSize = storage, playbackChunkSize = playback,
       pendingChunks = [], assembledChunks = [], totalExpectedSize = 0,
       isPlaybackReady = False, nextStorageIndex = 0,
       currentAssemblyBuffer = None, currentAssemblySize = 0,
       currentDownloadChunks = [], events = [] \<rparr>"

definition initialize :: "nat \<Rightarrow> StreamingAssembler \<Rightarrow> StreamingAssembler" where
  "initialize expected s =
     s\<lparr> totalExpectedSize := expected, pendingChunks := [], assembledChunks := [],
        nextStorageIndex := 0, currentAssemblyBuffer := None, currentAssemblySize := 0,
        currentDownloadChunks := [], isPlaybackReady := False \<rparr>"

text \<open>
  \<open>TypedArray.prototype.set(src, offset)\<close> on a view of \<open>target\<close>: the elements
  from \<open>offset\<close> on are overwritten by \<open>src\<close>. The source calls it only on a fresh
  buffer of \<open>currentAssemblySize + chunk.data.byteLength\<close> bytes.
\<close>

definition typed_set :: "'a list \<Rightarrow> 'a list \<Rightarrow> nat \<Rightarrow> 'a list" where
  "typed_set target src offset = take offset target @ src @ drop (offset + length src) target"

definition getNextSequentialIndex :: "StreamingAssembler \<Rightarrow> nat" where
  "getNextSequentialIndex s =
     sum_list (map (\<lambda>(k, c). length (downloadChunks c)) (assembledChunks s))
       + length (currentDownloadChunks s)"

definition isLastAssemblyChunk :: "StreamingAssembler \<Rightarrow> bool" where
  "isLastAssemblyChunk s \<longleftrightarrow>
     sum_list (map (\<lambda>(k, c). totalSize c) (assembledChunks s)) + currentAssemblySize s
       \<ge> totalExpectedSize s"

definition shouldCompleteCurrentAssembly :: "StreamingAssembler \<Rightarrow> bool" where
  "shouldCompleteCurrentAssembly s \<longleftrightarrow>
     (if nextStorageIndex s = 0 then currentAssemblySize s \<ge> playbackChunkSize s
      else currentAssemblySize s \<ge> storageChunkSize s \<or> isLastAssemblyChunk s)"

definition completeCurrentAssembly :: "StreamingAssembler \<Rightarrow> StreamingAssembler" where
  "completeCurrentAssembly s =
     (case currentAssemblyBuffer s of
        None \<Rightarrow> s
      | Some buf \<Rightarrow>
          if currentDownloadChunks s = [] then s
          else
            let assemblyChunk =
                  \<lparr> storageIndex = nextStorageIndex s,
                    downloadChunks = currentDownloadChunks s,
                    totalSize = currentAssemblySize s,
                    payload = buf,
                    canStartPlayback = (nextStorageIndex s = 0 \<and> \<not> isPlaybackReady s) \<rparr>;
                s1 = s\<lparr> assembledChunks :=
                          AList.update (nextStorageIndex s) assemblyChunk (assembledChunks s) \<rparr>;
                s2 = (if canStartPlayback assemblyChunk
                      then s1\<lparr> isPlaybackReady := True,
                               events := events s1 @ [PlaybackReady assemblyChunk] \<rparr>
                      else s1);
                s3 = s2\<lparr> events := events s2 @ [ChunkAssembled assemblyChunk] \<rparr>
            in s3\<lparr> nextStorageIndex := nextStorageIndex s3 + 1,
                    currentAssemblyBuffer := None,
                    currentAssemblySize := 0,
                    currentDownloadChunks := [] \<rparr>)"

definition checkForAssemblyCompletion :: "StreamingAssembler \<Rightarrow> StreamingAssembler" where
  "checkForAssemblyCompletion s =
     (case currentAssemblyBuffer s of
        None \<Rightarrow> s
      | Some _ \<Rightarrow> if shouldCompleteCurrentAssembly s then completeCurrentAssembly s else s)"

definition processDownloadChunk :: "DownloadChunk \<Rightarrow> StreamingAssembler \<Rightarrow> StreamingAssembler" where
  "processDownloadChunk chunk s =
     (let s1 = s\<lparr> currentDownloadChunks := currentDownloadChunks s @ [chunk] \<rparr>;
          newTotalSize = currentAssemblySize s1 + length (data chunk);
          combined0 = replicate newTotalSize (0 :: byte);
          combined1 = (case currentAssemblyBuffer s1 of
                         None \<Rightarrow> combined0
                       | Some existing \<Rightarrow> typed_set combined0 existing 0);
          combined = typed_set combined1 (data chunk) (currentAssemblySize s1);
          s2 = s1\<lparr> currentAssemblyBuffer := Some combined, currentAssemblySize := newTotalSize \<rparr>
      in checkForAssemblyCompletion s2)"

text \<open>
  The loop of \<open>processAvailableChunks\<close>: every round deletes the entry it has just
  found, so the pending map shrinks.
\<close>

function processAvailableChunks_loop :: "nat \<Rightarrow> StreamingAssembler \<Rightarrow> StreamingAssembler" where
  "processAvailableChunks_loop nextIndex s =
     (case map_of (pendingChunks s) nextIndex of
        None \<Rightarrow> s
      | Some chunk \<Rightarrow>
          let s1 = processDownloadChunk chunk s;
              s2 = s1\<lparr> pendingChunks := AList.delete nextIndex (pendingChunks s1) \<rparr>
          in processAvailableChunks_loop (nextIndex + 1) s2)"
  by pat_completeness auto

lemma pendingChunks_completeCurrentAssembly [simp]:
  "pendingChunks (completeCurrentAssembly s) = pendingChunks s"
  by (simp add: completeCurrentAssembly_def Let_def split: option.splits)

lemma pendingChunks_checkForAssemblyCompletion [simp]:
  "pendingChunks (checkForAssemblyCompletion s) = pendingChunks s"
  by (simp add: checkForAssemblyCompletion_def split: option.splits)

lemma pendingChunks_processDownloadChunk [simp]:
  "pendingChunks (processDownloadChunk chunk s) = pendingChunks s"
  by (simp add: processDownloadChunk_def Let_def)

lemma length_delete_present:
  "map_of al k = Some v \<Longrightarrow> length (AList.delete k al) < length al"
proof (induction al)
  case Nil
  then show ?case by simp
next
  case (Cons p al)
  have "length (AList.delete k al) \<le> length al"
    by (simp add: AList.delete_eq)
  with Cons show ?case
    by (cases p) (auto split: if_splits)
qed

termination processAvailableChunks_loop
  by (relation "measure (\<lambda>(nextIndex, s). length (pendingChunks s))")
     (auto simp: length_delete_present)

declare processAvailableChunks_loop.simps [simp del]

definition processAvailableChunks :: "StreamingAssembler \<Rightarrow> StreamingAssembler" where
  "processAvailableChunks s = processAvailableChunks_loop (getNextSequentialIndex s) s"

definition addDownloadChunk :: "DownloadChunk \<Rightarrow> StreamingAssembler \<Rightarrow> StreamingAssembler" where
  "addDownloadChunk chunk s =
     processAvailableChunks
       (s\<lparr> pendingChunks := AList.update (index chunk) chunk (pendingChunks s) \<rparr>)"

definition finalize :: "StreamingAssembler \<Rightarrow> StreamingAssembler" where
  "finalize s =
     (case currentAssemblyBuffer s of
        None \<Rightarrow> s
      | Some _ \<Rightarrow> if currentDownloadChunks s \<noteq> [] then completeCurrentAssembly s else s)"

definition getAssembledChunks :: "StreamingAssembler \<Rightarrow> AssemblyChunk list" where
  "getAssembledChunks s =
     concat (map (\<lambda>i. case map_of (assembledChunks s) i of None \<Rightarrow> [] | Some c \<Rightarrow> [c])
                 [0 ..< nextStorageIndex s])"

definition getFirstChunk :: "StreamingAssembler \<Rightarrow> AssemblyChunk option" where
  "getFirstChunk s = map_of (assembledChunks s) 0"

text \<open>\<open>cleanup\<close> of the assembler; the chunk store has a method of the same name.\<close>

definition assembler_cleanup :: "StreamingAssembler \<Rightarrow> StreamingAssembler" where
  "assembler_cleanup s =
     s\<lparr> pendingChunks := [], assembledChunks := [], currentAssemblyBuffer := None,
        currentDownloadChunks := [], currentAssemblySize := 0 \<rparr>"

text \<open>Feeding a list of fragments in list order, one \<open>addDownloadChunk\<close> call each.\<close>

definition addAll :: "DownloadChunk list \<Rightarrow> StreamingAssembler \<Rightarrow> StreamingAssembler" where
  "addAll chunks s = foldl (\<lambda>st c. addDownloadChunk c st) s chunks"

subsection \<open>Facts about typed arrays and insertion-ordered maps\<close>

lemma typed_set_fresh_None:
  "typed_set (replicate (length d) z) d 0 = d"
  by (simp add: typed_set_def)

lemma typed_set_fresh_Some:
  "typed_set (typed_set (replicate (length ex + length d) z) ex 0) d (length ex) = ex @ d"
  by (simp add: typed_set_def)

lemma update_fresh_key:
  "k \<notin> fst ` set al \<Longrightarrow> AList.update k v al = al @ [(k, v)]"
  by (induction al) auto

lemma upt_keys_length:
  assumes "map fst al = [0 ..< n]"
  shows "length al = n"
proof -
  have "length (map fst al) = length [0 ..< n]" using assms by simp
  then show ?thesis by simp
qed

lemma upt_keys_nth:
  assumes "map fst al = [0 ..< n]" and "i < n"
  shows "fst (al ! i) = i"
proof -
  have "i < length al" using assms upt_keys_length by metis
  then have "fst (al ! i) = map fst al ! i" by simp
  also have "\<dots> = i" using assms by simp
  finally show ?thesis .
qed

lemma upt_keys_distinct:
  assumes "map fst al = [0 ..< n]"
  shows "distinct (map fst al)"
  using assms by simp

lemma map_of_upt_keys:
  assumes "map fst al = [0 ..< n]" and "i < n"
  shows "map_of al i = Some (snd (al ! i))"
proof -
  have len: "i < length al" using assms upt_keys_length by metis
  have "al ! i \<in> set al" using len by simp
  moreover have "al ! i = (i, snd (al ! i))"
    using upt_keys_nth [OF assms] by (metis prod.collapse)
  ultimately have "(i, snd (al ! i)) \<in> set al" by simp
  then show ?thesis
    using upt_keys_distinct [OF assms(1)] by (rule_tac map_of_is_SomeI)
qed

lemma concat_singletons: "concat (map (\<lambda>i. [f i]) xs) = map f xs"
  by (induction xs) simp_all

lemma getAssembledChunks_upt_keys:
  assumes "map fst (assembledChunks s) = [0 ..< nextStorageIndex s]"
  shows "getAssembledChunks s = map snd (assembledChunks s)"
proof -
  let ?al = "assembledChunks s" and ?n = "nextStorageIndex s"
  have len: "length ?al = ?n" using assms by (rule upt_keys_length)
  have eq: "map (\<lambda>i. case map_of ?al i of None \<Rightarrow> [] | Some c \<Rightarrow> [c]) [0 ..< ?n]
        = map (\<lambda>i. [snd (?al ! i)]) [0 ..< ?n]"
    by (rule map_cong) (simp_all add: map_of_upt_keys [OF assms])
  have "getAssembledChunks s = concat (map (\<lambda>i. [snd (?al ! i)]) [0 ..< ?n])"
    by (simp only: getAssembledChunks_def eq)
  also have "\<dots> = map (\<lambda>i. snd (?al ! i)) [0 ..< ?n]"
    by (rule concat_singletons)
  also have "\<dots> = map snd (map (\<lambda>i. ?al ! i) [0 ..< length ?al])"
    using len by simp
  also have "\<dots> = map snd ?al"
    by (simp only: map_nth)
  finally show ?thesis .
qed

subsection \<open>Every sealed block stays in the assembler\<close>

text \<open>
  \<open>emitted\<close> lists the blocks handed to \<open>onChunkAssembled\<close>, in call order, and
  \<open>playbackReadyEvents\<close> the blocks handed to \<open>onPlaybackReady\<close>. An operation
  of the assembler is one call of \<open>addDownloadChunk\<close> or of \<open>finalize\<close>.
\<close>

definition emitted :: "StreamingAssembler \<Rightarrow> AssemblyChunk list" where
  "emitted s = concat (map (\<lambda>e. case e of ChunkAssembled c \<Rightarrow> [c] | PlaybackReady c \<Rightarrow> []) (events s))"


datatype assembler_op = AddFragment DownloadChunk | Finalize

fun apply_op :: "StreamingAssembler \<Rightarrow> assembler_op \<Rightarrow> StreamingAssembler" where
  "apply_op s (AddFragment chunk) = addDownloadChunk chunk s"
| "apply_op s Finalize = finalize s"

definition run_ops :: "assembler_op list \<Rightarrow> StreamingAssembler \<Rightarrow> StreamingAssembler" where
  "run_ops ops s = foldl apply_op s ops"

definition retains_all :: "StreamingAssembler \<Rightarrow> bool" where
  "retains_all s \<longleftrightarrow>
     map fst (assembledChunks s) = [0 ..< nextStorageIndex s] \<and>
     map snd (assembledChunks s) = emitted s"

lemma upt_keys_fresh:
  assumes "map fst al = [0 ..< n]"
  shows "n \<notin> fst ` set al"
proof -
  have "fst ` set al = set (map fst al)" by simp
  also have "\<dots> = {0 ..< n}" using assms by simp
  finally show ?thesis by simp
qed

lemma retains_all_complete:
  assumes "retains_all s"
  shows "retains_all (completeCurrentAssembly s)"
proof (cases "currentAssemblyBuffer s")
  case None
  then show ?thesis using assms by (simp add: completeCurrentAssembly_def)
next
  case (Some buf)
  show ?thesis
  proof (cases "currentDownloadChunks s = []")
    case True
    then show ?thesis using assms Some by (simp add: completeCurrentAssembly_def)
  next
    case False
    have fresh: "nextStorageIndex s \<notin> fst ` set (assembledChunks s)"
      using assms by (simp add: retains_all_def upt_keys_fresh)
    show ?thesis
      using assms Some False
      by (simp add: completeCurrentAssembly_def Let_def retains_all_def emitted_def
          update_fresh_key [OF fresh])
  qed
qed

lemma retains_all_check:
  "retains_all s \<Longrightarrow> retains_all (checkForAssemblyCompletion s)"
  by (simp add: checkForAssemblyCompletion_def retains_all_complete split: option.splits)

lemma retains_all_process:
  assumes "retains_all s"
  shows "retains_all (processDownloadChunk chunk s)"
proof -
  have "retains_all (s\<lparr> currentDownloadChunks := a, currentAssemblyBuffer := b, currentAssemblySize := c \<rparr>)"
    for a b c using assms by (simp add: retains_all_def emitted_def)
  then show ?thesis
    by (simp add: processDownloadChunk_def Let_def retains_all_check)
qed

lemma retains_all_pending:
  "retains_all (s\<lparr> pendingChunks := p \<rparr>) = retains_all s"
  by (simp add: retains_all_def emitted_def)

lemma retains_all_loop:
  "retains_all s \<Longrightarrow> retains_all (processAvailableChunks_loop i s)"
proof (induction i s rule: processAvailableChunks_loop.induct)
  case (1 nextIndex s)
  show ?case
  proof (cases "map_of (pendingChunks s) nextIndex")
    case None
    then show ?thesis using "1.prems" by (simp add: processAvailableChunks_loop.simps)
  next
    case (Some chunk)
    have "retains_all ((processDownloadChunk chunk s)
            \<lparr> pendingChunks := AList.delete nextIndex (pendingChunks (processDownloadChunk chunk s)) \<rparr>)"
      using "1.prems" by (simp only: retains_all_pending retains_all_process)
    then have "retains_all (processAvailableChunks_loop (nextIndex + 1)
            ((processDownloadChunk chunk s)
               \<lparr> pendingChunks := AList.delete nextIndex (pendingChunks (processDownloadChunk chunk s)) \<rparr>))"
      using "1.IH" [OF Some refl refl] by simp
    then show ?thesis
      using Some by (subst processAvailableChunks_loop.simps) (simp add: Let_def)
  qed
qed

lemma retains_all_add:
  "retains_all s \<Longrightarrow> retains_all (addDownloadChunk chunk s)"
  by (simp add: addDownloadChunk_def processAvailableChunks_def retains_all_loop retains_all_pending)

lemma retains_all_finalize:
  "retains_all s \<Longrightarrow> retains_all (finalize s)"
  by (simp add: finalize_def retains_all_complete split: option.splits)

lemma retains_all_run:
  "retains_all s \<Longrightarrow> retains_all (run_ops ops s)"
  unfolding run_ops_def
proof (induction ops arbitrary: s)
  case Nil
  then show ?case by simp
next
  case (Cons op ops)
  have "retains_all (apply_op s op)"
    using Cons.prems by (cases op) (simp_all add: retains_all_add retains_all_finalize)
  then show ?case using Cons.IH by simp
qed

lemma retains_all_initial:
  "retains_all (initialize expected (new_assembler storage playback))"
  by (simp add: retains_all_def initialize_def new_assembler_def emitted_def)

lemma addAll_run_ops: "addAll chunks s = run_ops (map AddFragment chunks) s"
  unfolding addAll_def run_ops_def by (induction chunks arbitrary: s) simp_all

subsection \<open>The accumulator always fits\<close>

text \<open>
  \<open>set\<close> throws a RangeError when the source does not fit into the target at the
  offset. In every state that \<open>addDownloadChunk\<close> and \<open>finalize\<close> reach,
  \<open>currentAssemblySize\<close> is the length of the accumulator, so the fresh buffer of
  \<open>processDownloadChunk\<close> has room for the accumulator at 0 and for the new payload
  behind it, and neither call of \<open>set\<close> throws.
\<close>

definition accumulator_fits :: "StreamingAssembler \<Rightarrow> bool" where
  "accumulator_fits s \<longleftrightarrow>
     (case currentAssemblyBuffer s of
        None \<Rightarrow> currentAssemblySize s = 0
      | Some buf \<Rightarrow> currentAssemblySize s = length buf)"

lemma accumulator_fits_complete:
  "accumulator_fits s \<Longrightarrow> accumulator_fits (completeCurrentAssembly s)"
  by (simp add: accumulator_fits_def completeCurrentAssembly_def Let_def split: option.splits)

lemma accumulator_fits_check:
  "accumulator_fits s \<Longrightarrow> accumulator_fits (checkForAssemblyCompletion s)"
  by (simp add: checkForAssemblyCompletion_def accumulator_fits_complete split: option.splits)

lemma accumulator_fits_process:
  assumes "accumulator_fits s"
  shows "accumulator_fits (processDownloadChunk chunk s)"
  unfolding processDownloadChunk_def Let_def
  using assms
  by (intro accumulator_fits_check)
     (simp add: accumulator_fits_def typed_set_def split: option.splits)

lemma accumulator_fits_pending:
  "accumulator_fits (s\<lparr> pendingChunks := p \<rparr>) = accumulator_fits s"
  by (cases "currentAssemblyBuffer s") (simp_all add: accumulator_fits_def)

lemma accumulator_fits_loop:
  "accumulator_fits s \<Longrightarrow> accumulator_fits (processAvailableChunks_loop i s)"
proof (induction i s rule: processAvailableChunks_loop.induct)
  case (1 nextIndex s)
  show ?case
  proof (cases "map_of (pendingChunks s) nextIndex")
    case None
    then show ?thesis using "1.prems" by (simp add: processAvailableChunks_loop.simps)
  next
    case (Some chunk)
    have "accumulator_fits ((processDownloadChunk chunk s)
            \<lparr> pendingChunks := AList.delete nextIndex (pendingChunks (processDownloadChunk chunk s)) \<rparr>)"
      using "1.prems" by (simp only: accumulator_fits_pending accumulator_fits_process)
    then have "accumulator_fits (processAvailableChunks_loop (nextIndex + 1)
            ((processDownloadChunk chunk s)
               \<lparr> pendingChunks := AList.delete nextIndex (pendingChunks (processDownloadChunk chunk s)) \<rparr>))"
      using "1.IH" [OF Some refl refl] by simp
    then show ?thesis
      using Some by (subst processAvailableChunks_loop.simps) (simp add: Let_def)
  qed
qed

lemma accumulator_fits_run:
  "accumulator_fits (run_ops ops (initialize expected (new_assembler storage playback)))"
proof -
  have step: "accumulator_fits (apply_op s op)" if "accumulator_fits s" for s op
  proof (cases op)
    case (AddFragment chunk)
    then show ?thesis
      using that
      by (simp add: addDownloadChunk_def processAvailableChunks_def accumulator_fits_loop
          accumulator_fits_pending)
  next
    case Finalize
    then show ?thesis
      using that by (simp add: finalize_def accumulator_fits_complete split: option.splits)
  qed
  have "accumulator_fits (foldl apply_op s ops)" if "accumulator_fits s" for s
    using that by (induction ops arbitrary: s) (simp_all add: step)
  moreover have "accumulator_fits (initialize expected (new_assembler storage playback))"
    by (simp add: accumulator_fits_def initialize_def new_assembler_def)
  ultimately show ?thesis by (simp add: run_ops_def)
qed

subsection \<open>Fragments fed in index order\<close>

text \<open>
  \<open>consumed\<close> is the list of fragments the assembler has taken out of the pending map,
  in the order it took them. \<open>in_order_inv\<close> describes the states reached when every
  fragment arrives with the index the assembler waits for: nothing is pending, block keys
  are \<open>0, 1, \<dots>\<close>, each payload is the concatenation of its fragments, and the
  accumulator is the concatenation of the fragments since the last seal.
\<close>

definition consumed :: "StreamingAssembler \<Rightarrow> DownloadChunk list" where
  "consumed s = concat (map (\<lambda>(k, c). downloadChunks c) (assembledChunks s)) @ currentDownloadChunks s"

definition in_order_inv :: "StreamingAssembler \<Rightarrow> bool" where
  "in_order_inv s \<longleftrightarrow>
     pendingChunks s = [] \<and>
     map fst (assembledChunks s) = [0 ..< nextStorageIndex s] \<and>
     list_all (\<lambda>(k, c). payload c = concat (map data (downloadChunks c))) (assembledChunks s) \<and>
     (case currentAssemblyBuffer s of
        None \<Rightarrow> currentDownloadChunks s = [] \<and> currentAssemblySize s = 0
      | Some buf \<Rightarrow> currentDownloadChunks s \<noteq> [] \<and> currentAssemblySize s = length buf \<and>
                   buf = concat (map data (currentDownloadChunks s)))"

lemma getNextSequentialIndex_consumed:
  "getNextSequentialIndex s = length (consumed s)"
proof -
  have "sum_list (map (\<lambda>(k, c). length (downloadChunks c)) al)
        = length (concat (map (\<lambda>(k, c). downloadChunks c) al))" for al :: "(nat \<times> AssemblyChunk) list"
    by (induction al) (auto simp: case_prod_beta)
  then show ?thesis
    by (simp add: getNextSequentialIndex_def consumed_def)
qed

lemma in_order_complete:
  assumes "in_order_inv s"
  shows "in_order_inv (completeCurrentAssembly s) \<and> consumed (completeCurrentAssembly s) = consumed s"
proof (cases "currentAssemblyBuffer s")
  case None
  then show ?thesis using assms by (simp add: completeCurrentAssembly_def)
next
  case (Some buf)
  have ne: "currentDownloadChunks s \<noteq> []"
    using assms Some by (simp add: in_order_inv_def)
  have fresh: "nextStorageIndex s \<notin> fst ` set (assembledChunks s)"
    using assms by (simp add: in_order_inv_def upt_keys_fresh)
  show ?thesis
    using assms Some ne
    by (simp add: completeCurrentAssembly_def Let_def in_order_inv_def consumed_def
        update_fresh_key [OF fresh])
qed

lemma in_order_check:
  assumes "in_order_inv s"
  shows "in_order_inv (checkForAssemblyCompletion s) \<and> consumed (checkForAssemblyCompletion s) = consumed s"
  using assms in_order_complete [OF assms]
  by (simp add: checkForAssemblyCompletion_def split: option.splits)

definition accumulate :: "DownloadChunk \<Rightarrow> StreamingAssembler \<Rightarrow> StreamingAssembler" where
  "accumulate chunk s =
     s\<lparr> currentDownloadChunks := currentDownloadChunks s @ [chunk],
        currentAssemblyBuffer := Some (concat (map data (currentDownloadChunks s)) @ data chunk),
        currentAssemblySize := currentAssemblySize s + length (data chunk) \<rparr>"

lemma in_order_accumulate:
  assumes "in_order_inv s"
  shows "processDownloadChunk chunk s = checkForAssemblyCompletion (accumulate chunk s)"
    and "in_order_inv (accumulate chunk s)"
    and "consumed (accumulate chunk s) = consumed s @ [chunk]"
proof -
  show "processDownloadChunk chunk s = checkForAssemblyCompletion (accumulate chunk s)"
  proof (cases "currentAssemblyBuffer s")
    case None
    then have "currentDownloadChunks s = []" "currentAssemblySize s = 0"
      using assms(1) by (simp_all add: in_order_inv_def)
    then show ?thesis
      using None by (simp add: processDownloadChunk_def Let_def accumulate_def typed_set_fresh_None)
  next
    case (Some buf)
    then have "currentAssemblySize s = length buf" "buf = concat (map data (currentDownloadChunks s))"
      using assms(1) by (simp_all add: in_order_inv_def)
    then show ?thesis
      using Some typed_set_fresh_Some [of buf "data chunk" 0]
      by (simp add: processDownloadChunk_def Let_def accumulate_def)
  qed
  show "in_order_inv (accumulate chunk s)"
    using assms(1) by (auto simp: in_order_inv_def accumulate_def split: option.splits)
  show "consumed (accumulate chunk s) = consumed s @ [chunk]"
    by (simp add: consumed_def accumulate_def)
qed

lemma in_order_process:
  assumes "in_order_inv s"
  shows "in_order_inv (processDownloadChunk chunk s) \<and>
         consumed (processDownloadChunk chunk s) = consumed s @ [chunk]"
  using in_order_accumulate [OF assms, of chunk] in_order_check by metis

lemma processDownloadChunk_pending:
  "processDownloadChunk chunk (s\<lparr> pendingChunks := p \<rparr>) = (processDownloadChunk chunk s)\<lparr> pendingChunks := p \<rparr>"
  by (simp add: processDownloadChunk_def checkForAssemblyCompletion_def
      shouldCompleteCurrentAssembly_def isLastAssemblyChunk_def completeCurrentAssembly_def Let_def
      split: option.splits)

lemma addDownloadChunk_in_order:
  assumes "pendingChunks s = []" and "index chunk = getNextSequentialIndex s"
  shows "addDownloadChunk chunk s = processDownloadChunk chunk s"
proof -
  let ?s0 = "s\<lparr> pendingChunks := [(index chunk, chunk)] \<rparr>"
  let ?s1 = "processDownloadChunk chunk ?s0"
  let ?s2 = "?s1\<lparr> pendingChunks := AList.delete (index chunk) (pendingChunks ?s1) \<rparr>"
  have next0: "getNextSequentialIndex ?s0 = index chunk"
    using assms(2) by (simp add: getNextSequentialIndex_def)
  have s2: "?s2 = processDownloadChunk chunk s"
    using assms(1) by (simp add: processDownloadChunk_pending)
  have "addDownloadChunk chunk s = processAvailableChunks_loop (index chunk) ?s0"
    using assms(1) next0 by (simp add: addDownloadChunk_def processAvailableChunks_def)
  also have "\<dots> = processAvailableChunks_loop (index chunk + 1) ?s2"
    by (subst processAvailableChunks_loop.simps) (simp add: Let_def)
  also have "\<dots> = ?s2"
    by (subst processAvailableChunks_loop.simps) simp
  finally show ?thesis using s2 by simp
qed

lemma in_order_add:
  assumes "in_order_inv s" and "index chunk = length (consumed s)"
  shows "in_order_inv (addDownloadChunk chunk s) \<and> consumed (addDownloadChunk chunk s) = consumed s @ [chunk]"
proof -
  have "addDownloadChunk chunk s = processDownloadChunk chunk s"
    using assms by (intro addDownloadChunk_in_order) (simp_all add: in_order_inv_def getNextSequentialIndex_consumed)
  then show ?thesis using in_order_process [OF assms(1)] by simp
qed

lemma in_order_addAll:
  assumes "in_order_inv s" and "map index chunks = [length (consumed s) ..< length (consumed s) + length chunks]"
  shows "in_order_inv (addAll chunks s) \<and> consumed (addAll chunks s) = consumed s @ chunks"
  using assms
proof (induction chunks arbitrary: s)
  case Nil
  then show ?case by (simp add: addAll_def)
next
  case (Cons c cs)
  let ?s = "addDownloadChunk c s"
  have idx: "index c = length (consumed s)" and
    rest: "map index cs = [Suc (length (consumed s)) ..< length (consumed s) + Suc (length cs)]"
    using Cons.prems(2) by (simp_all del: upt_Suc add: upt_conv_Cons)
  have step: "in_order_inv ?s" "consumed ?s = consumed s @ [c]"
    using in_order_add [OF Cons.prems(1) idx] by simp_all
  have "map index cs = [length (consumed ?s) ..< length (consumed ?s) + length cs]"
    using rest step(2) by simp
  then have "in_order_inv (addAll cs ?s) \<and> consumed (addAll cs ?s) = consumed ?s @ cs"
    using Cons.IH step(1) by blast
  then show ?case using step(2) by (simp add: addAll_def)
qed

lemma in_order_initial:
  "in_order_inv (initialize expected (new_assembler storage playback))"
  "consumed (initialize expected (new_assembler storage playback)) = []"
  by (simp_all add: in_order_inv_def initialize_def new_assembler_def consumed_def)

lemma in_order_finalize:
  assumes "in_order_inv s"
  shows "in_order_inv (finalize s)" and "consumed (finalize s) = consumed s"
    and "currentDownloadChunks (finalize s) = []"
proof -
  show "in_order_inv (finalize s)" "consumed (finalize s) = consumed s"
    using in_order_complete [OF assms] assms by (simp_all add: finalize_def split: option.splits)
  show "currentDownloadChunks (finalize s) = []"
    using assms
    by (auto simp: finalize_def in_order_inv_def completeCurrentAssembly_def Let_def split: option.splits)
qed

lemma in_order_payloads:
  assumes "in_order_inv s" and "currentDownloadChunks s = []"
  shows "concat (map payload (getAssembledChunks s)) = concat (map data (consumed s))"
proof -
  have keys: "map fst (assembledChunks s) = [0 ..< nextStorageIndex s]"
    and all: "list_all (\<lambda>(k, c). payload c = concat (map data (downloadChunks c))) (assembledChunks s)"
    using assms(1) by (simp_all add: in_order_inv_def)
  have "concat (map payload (map snd al)) = concat (map data (concat (map (\<lambda>(k, c). downloadChunks c) al)))"
    if "list_all (\<lambda>(k, c). payload c = concat (map data (downloadChunks c))) al"
    for al :: "(nat \<times> AssemblyChunk) list"
    using that by (induction al) (auto simp: case_prod_beta)
  then show ?thesis
    using all assms(2) by (simp add: getAssembledChunks_upt_keys [OF keys] consumed_def)
qed

subsection \<open>Round trip of the assembled payloads\<close>

definition gapped_fragments :: "DownloadChunk list" where
  "gapped_fragments =
     [\<lparr> index = 0, start = 0, end_offset = 0, data = [1] \<rparr>,
      \<lparr> index = 2, start = 1, end_offset = 1, data = [2] \<rparr>]"

definition two_fragments :: "DownloadChunk list" where
  "two_fragments =
     [\<lparr> index = 0, start = 0, end_offset = 0, data = [1] \<rparr>,
      \<lparr> index = 1, start = 1, end_offset = 1, data = [2] \<rparr>]"

lemmas asm_defs = addAll_def addDownloadChunk_def processAvailableChunks_def
  processAvailableChunks_loop.simps getNextSequentialIndex_def processDownloadChunk_def
  checkForAssemblyCompletion_def shouldCompleteCurrentAssembly_def isLastAssemblyChunk_def
  completeCurrentAssembly_def finalize_def getAssembledChunks_def initialize_def new_assembler_def
  typed_set_def Let_def

text \<open>
  Claim C1, as amended. When the fragments are supplied with the sequence indices
  \<open>0, 1, \<dots>, n - 1\<close> in this order (strictly increasing, starting at 0 and without a
  gap), then after \<open>finalize\<close> the payloads of the blocks returned by
  \<open>getAssembledChunks\<close>, concatenated in storageIndex order, are exactly the
  concatenation of the fragment payloads: the input bytes. The blocks handed to
  \<open>onChunkAssembled\<close> are the same blocks in the same order. This holds for every
  declared total size and for every pair of target sizes.
\<close>

theorem assembler_round_trip_in_order:
  assumes "map index chunks = [0 ..< length chunks]"
  shows "concat (map payload (getAssembledChunks
           (finalize (addAll chunks (initialize expected (new_assembler storage playback))))))
         = concat (map data chunks) \<and>
         concat (map payload (emitted
           (finalize (addAll chunks (initialize expected (new_assembler storage playback))))))
         = concat (map data chunks)"
proof -
  let ?init = "initialize expected (new_assembler storage playback)"
  let ?fin = "finalize (addAll chunks ?init)"
  have "in_order_inv (addAll chunks ?init) \<and> consumed (addAll chunks ?init) = consumed ?init @ chunks"
    using assms by (intro in_order_addAll) (simp_all add: in_order_initial)
  then have inv: "in_order_inv (addAll chunks ?init)" and cons: "consumed (addAll chunks ?init) = chunks"
    by (simp_all add: in_order_initial)
  have returned: "concat (map payload (getAssembledChunks ?fin)) = concat (map data chunks)"
    using in_order_payloads [OF in_order_finalize(1) [OF inv] in_order_finalize(3) [OF inv]]
    by (simp add: in_order_finalize(2) [OF inv] cons)
  have "retains_all ?fin"
    using retains_all_finalize [OF retains_all_run [OF retains_all_initial]]
    by (simp only: addAll_run_ops)
  then have "getAssembledChunks ?fin = emitted ?fin"
    using getAssembledChunks_upt_keys [of ?fin] by (simp add: retains_all_def)
  then show ?thesis
    using returned by simp
qed

theorem assembler_round_trip_in_order_witness:
  "map index two_fragments = [0 ..< length two_fragments] \<and>
   concat (map payload (getAssembledChunks
      (finalize (addAll two_fragments (initialize 2 (new_assembler 1 1))))))
     = concat (map data two_fragments) \<and>
   concat (map payload (emitted
      (finalize (addAll two_fragments (initialize 2 (new_assembler 1 1))))))
     = concat (map data two_fragments)"
  using assembler_round_trip_in_order [of two_fragments 2 1 1]
  by (simp add: two_fragments_def)

text \<open>
  Claim C1 as stated fails when the strictly increasing indices leave a gap: the two
  fragments with indices 0 and 2 carry the two bytes of a file of declared size 2, the
  assembler waits for index 1, fragment 2 stays in the pending map, and \<open>finalize\<close>
  does not flush the pending map.
\<close>

theorem assembler_round_trip_gap_counterexample:
  "sorted_wrt (<) (map index gapped_fragments) \<and>
   sum_list (map (\<lambda>c. length (data c)) gapped_fragments) = 2 \<and>
   concat (map payload (getAssembledChunks
      (finalize (addAll gapped_fragments (initialize 2 (new_assembler 1 1))))))
     \<noteq> concat (map data gapped_fragments)"
  by (simp add: gapped_fragments_def asm_defs)

subsection \<open>Retention of sealed blocks\<close>

text \<open>
  Claim C7, as amended. After any sequence of \<open>addDownloadChunk\<close> and \<open>finalize\<close>
  calls on an initialised assembler, the map \<open>assembledChunks\<close> still holds every
  block sealed so far: \<open>getAssembledChunks\<close> returns exactly the blocks that were
  emitted, in emission order, and there are \<open>nextStorageIndex\<close> of them.
\<close>

theorem sealed_blocks_are_retained:
  "getAssembledChunks (run_ops ops (initialize expected (new_assembler storage playback)))
     = emitted (run_ops ops (initialize expected (new_assembler storage playback))) \<and>
   length (getAssembledChunks (run_ops ops (initialize expected (new_assembler storage playback))))
     = nextStorageIndex (run_ops ops (initialize expected (new_assembler storage playback)))"
proof -
  let ?fin = "run_ops ops (initialize expected (new_assembler storage playback))"
  have "retains_all ?fin"
    by (rule retains_all_run [OF retains_all_initial])
  then have keys: "map fst (assembledChunks ?fin) = [0 ..< nextStorageIndex ?fin]"
    and all: "map snd (assembledChunks ?fin) = emitted ?fin"
    by (simp_all add: retains_all_def)
  have view: "getAssembledChunks ?fin = map snd (assembledChunks ?fin)"
    by (rule getAssembledChunks_upt_keys [OF keys])
  have "length (getAssembledChunks ?fin) = length (assembledChunks ?fin)"
    by (simp only: view length_map)
  then have len: "length (getAssembledChunks ?fin) = nextStorageIndex ?fin"
    by (simp only: upt_keys_length [OF keys])
  have "getAssembledChunks ?fin = emitted ?fin"
    by (simp only: view all)
  then show ?thesis
    using len by (rule conjI)
qed

text \<open>
  Claim C7 as stated fails: after two one-byte fragments, with a first-playable target of
  1 byte, a storage target of 2 bytes and a declared size of 3 bytes, block 0 is sealed
  and still held with its payload while the accumulator holds the byte of the block in
  progress.
\<close>

theorem sealed_block_retained_counterexample:
  "map payload (getAssembledChunks
      (run_ops (map AddFragment two_fragments) (initialize 3 (new_assembler 2 1)))) = [[1]] \<and>
   currentAssemblyBuffer
      (run_ops (map AddFragment two_fragments) (initialize 3 (new_assembler 2 1))) = Some [2]"
  by (simp add: two_fragments_def run_ops_def asm_defs)

section \<open>Range fetcher (DownloadManager.ts)\<close>










section \<open>The instant-playback scenario\<close>

subsection \<open>The playback-ready event\<close>












subsection \<open>Block sizes as a function of fragment sizes\<close>










subsection \<open>Scenario A\<close>










section \<open>Chunk store (AudioChunkStore.ts)\<close>

subsection \<open>Records\<close>

text \<open>
  The interfaces of AudioChunkStore.ts. Field names that two interfaces share carry a
  prefix, since a record field is a constant: \<open>track_\<close> in AudioMetadata (where
  \<open>duration\<close>, \<open>sampleRate\<close> and \<open>numberOfChannels\<close> are also fields of the audio
  processor), \<open>chunk_\<close> in AudioChunk and \<open>stored_\<close> in StoredChunk. The \<open>id\<close> of a
  chunk is the text \<open>trackId-chunkIndex\<close>, the key of the object store; the model keys a
  chunk by the pair it is built from. A stored channel is a JavaScript string, a list of
  16-bit code units. An AudioBuffer of the Web Audio API is its sample rate, its length in
  samples and its channels; the API creates none without a channel, none of length 0, and
  every channel has the buffer's length (\<open>wf_AudioBuffer\<close>).
\<close>

record AudioMetadata =
  trackId :: string
  name :: string
  track_duration :: rat
  track_sampleRate :: nat
  track_numberOfChannels :: nat
  totalChunks :: nat
  lastAccessed :: int
  fileSize :: int
  url :: string

record AudioChunk =
  chunk_trackId :: string
  chunkIndex :: nat
  chunk_sampleRate :: nat
  chunk_length :: nat
  channels :: "float32 list list"

record StoredChunk =
  stored_trackId :: string
  stored_chunkIndex :: nat
  stored_sampleRate :: nat
  stored_length :: nat
  stored_channels :: "u16 list list"



text \<open>
  The database: the object store \<open>cache_meta\<close> (key path \<open>trackId\<close>) and the object
  store \<open>cache_data\<close> (key path \<open>id\<close>, index \<open>trackId\<close>). The metadata records are
  held as \<open>getMetadata\<close> returns them; the reversible obfuscation of \<open>name\<close> and
  \<open>url\<close> on the way in and out is not part of the model.
\<close>

record ChunkStore =
  cache_meta :: "AudioMetadata list"
  cache_data :: "StoredChunk list"

datatype js_error = NotSupportedError | RangeError | TypeError

subsection \<open>Requests, promises and the timeout wrapper\<close>

text \<open>
  How the database answers a request is an input: it answers (\<open>onsuccess\<close>), it
  reports an error (\<open>onerror\<close>), or it fires neither event. A promise is \<open>None\<close>
  when it never settles, \<open>Some (Inl e)\<close> when it rejects and \<open>Some (Inr v)\<close> when it
  resolves. \<open>withTimeout\<close> races a promise against a timer that rejects with the error
  "Safari IndexedDB operation timeout": a promise that does not settle before the timer
  fires is rejected with \<open>OperationTimeout\<close>.
\<close>

datatype availability = Responsive | Erroring | Hung

datatype store_failure = RequestError | OperationTimeout

type_synonym 'a promise = "(store_failure + 'a) option"

definition request :: "availability \<Rightarrow> 'a \<Rightarrow> 'a promise" where
  "request av result =
     (case av of
        Responsive \<Rightarrow> Some (Inr result)
      | Erroring \<Rightarrow> Some (Inl RequestError)
      | Hung \<Rightarrow> None)"

definition withTimeout :: "'a promise \<Rightarrow> 'a promise" where
  "withTimeout p = (case p of None \<Rightarrow> Some (Inl OperationTimeout) | Some r \<Rightarrow> Some r)"

subsection \<open>Opening the database\<close>














subsection \<open>Channel payloads as strings\<close>

text \<open>
  \<open>float32ArrayToString\<close> views the samples as a Uint16Array (two code units per sample,
  low half first on the little-endian platforms the code runs on) and turns it into a
  string: with \<open>new TextDecoder('utf-16')\<close> where the platform has a TextDecoder
  (\<open>hasTextDecoder\<close>), else with \<open>String.fromCharCode\<close> on slices of 10000 units.

  \<open>TextDecoder_decode\<close> is the platform's UTF-16LE decoder in its default mode
  (\<open>fatal\<close> and \<open>ignoreBOM\<close> both false), on code units: a high surrogate followed by a
  low surrogate is kept as the pair, every other surrogate is replaced by U+FFFD, and a
  byte order mark U+FEFF at the start of the output is dropped. \<open>utf16_decode\<close> carries
  the pending high surrogate in its first argument.

  \<open>stringToFloat32Array\<close> copies the char codes into a Uint16Array and views its buffer
  as a Float32Array, which throws a RangeError when the byte length is not a multiple of 4.
\<close>

definition float32_units :: "float32 \<Rightarrow> u16 list" where
  "float32_units w = [ucast w, ucast (drop_bit 16 w)]"

definition units_float32 :: "u16 \<Rightarrow> u16 \<Rightarrow> float32" where
  "units_float32 lo hi = ucast lo OR push_bit 16 (ucast hi)"

fun utf16_decode :: "u16 option \<Rightarrow> u16 list \<Rightarrow> u16 list" where
  "utf16_decode None [] = []"
| "utf16_decode (Some lead) [] = [0xFFFD]"
| "utf16_decode None (cu # cus) =
     (if 0xD800 \<le> cu \<and> cu \<le> 0xDBFF then utf16_decode (Some cu) cus
      else if 0xDC00 \<le> cu \<and> cu \<le> 0xDFFF then 0xFFFD # utf16_decode None cus
      else cu # utf16_decode None cus)"
| "utf16_decode (Some lead) (cu # cus) =
     (if 0xDC00 \<le> cu \<and> cu \<le> 0xDFFF then lead # cu # utf16_decode None cus
      else 0xFFFD # utf16_decode None (cu # cus))"

definition TextDecoder_decode :: "u16 list \<Rightarrow> u16 list" where
  "TextDecoder_decode units =
     (case utf16_decode None units of
        [] \<Rightarrow> []
      | c # rest \<Rightarrow> if c = 0xFEFF then rest else c # rest)"

function fromCharCode_chunks :: "u16 list \<Rightarrow> nat \<Rightarrow> u16 list \<Rightarrow> u16 list" where
  "fromCharCode_chunks units i str =
     (if i < length units
      then fromCharCode_chunks units (i + 10000)
             (str @ take (min (i + 10000) (length units) - i) (drop i units))
      else str)"
  by pat_completeness auto
termination
  by (relation "measure (\<lambda>(units, i, str). length units - i)") auto

declare fromCharCode_chunks.simps [simp del]

definition float32ArrayToString :: "bool \<Rightarrow> float32 list \<Rightarrow> u16 list" where
  "float32ArrayToString hasTextDecoder f32 =
     (let units = concat (map float32_units f32)
      in if hasTextDecoder then TextDecoder_decode units
         else fromCharCode_chunks units 0 [])"

fun float32_view :: "u16 list \<Rightarrow> float32 list" where
  "float32_view (lo # hi # rest) = units_float32 lo hi # float32_view rest"
| "float32_view _ = []"

definition stringToFloat32Array :: "u16 list \<Rightarrow> js_error + float32 list" where
  "stringToFloat32Array str =
     (if odd (length str) then Inl RangeError else Inr (float32_view str))"


subsection \<open>Writing and reading chunks and metadata\<close>

text \<open>
  The effect of one completed database request on the store (\<open>store_\<close>), and the
  methods as the class wraps them. \<open>saveMetadata\<close>, \<open>getMetadata\<close>, \<open>saveChunk\<close> and
  \<open>getChunk\<close> return \<open>this.withTimeout(operation, 5000)\<close>; \<open>getAllMetadata\<close>,
  \<open>getAvailableChunks\<close> and \<open>removeTrack\<close> return or await the bare promise. A method
  that writes resolves to the store after the write. In \<open>getChunk\<close> the strings are
  decoded inside the \<open>onsuccess\<close> handler, before \<open>resolve\<close>: when decoding throws,
  the promise is never settled.
\<close>

definition store_putMetadata :: "AudioMetadata \<Rightarrow> ChunkStore \<Rightarrow> ChunkStore" where
  "store_putMetadata metadata store =
     store\<lparr> cache_meta :=
              filter (\<lambda>m. trackId m \<noteq> trackId metadata) (cache_meta store) @ [metadata] \<rparr>"

definition store_getMetadata :: "string \<Rightarrow> ChunkStore \<Rightarrow> AudioMetadata option" where
  "store_getMetadata tid store = find (\<lambda>m. trackId m = tid) (cache_meta store)"

definition store_getAll :: "ChunkStore \<Rightarrow> AudioMetadata list" where
  "store_getAll store = cache_meta store"

definition store_putChunk :: "StoredChunk \<Rightarrow> ChunkStore \<Rightarrow> ChunkStore" where
  "store_putChunk storedChunk store =
     store\<lparr> cache_data :=
              filter (\<lambda>c. \<not> (stored_trackId c = stored_trackId storedChunk \<and>
                           stored_chunkIndex c = stored_chunkIndex storedChunk))
                     (cache_data store) @ [storedChunk] \<rparr>"

definition store_getChunk :: "string \<Rightarrow> nat \<Rightarrow> ChunkStore \<Rightarrow> StoredChunk option" where
  "store_getChunk tid i store =
     find (\<lambda>c. stored_trackId c = tid \<and> stored_chunkIndex c = i) (cache_data store)"

definition store_deleteMetadata :: "string \<Rightarrow> ChunkStore \<Rightarrow> ChunkStore" where
  "store_deleteMetadata tid store =
     store\<lparr> cache_meta := filter (\<lambda>m. trackId m \<noteq> tid) (cache_meta store) \<rparr>"

definition store_deleteChunks :: "string \<Rightarrow> ChunkStore \<Rightarrow> ChunkStore" where
  "store_deleteChunks tid store =
     store\<lparr> cache_data := filter (\<lambda>c. stored_trackId c \<noteq> tid) (cache_data store) \<rparr>"

definition saveMetadata :: "availability \<Rightarrow> AudioMetadata \<Rightarrow> ChunkStore \<Rightarrow> ChunkStore promise" where
  "saveMetadata av metadata store = withTimeout (request av (store_putMetadata metadata store))"

definition getMetadata :: "availability \<Rightarrow> string \<Rightarrow> ChunkStore \<Rightarrow> AudioMetadata option promise" where
  "getMetadata av tid store = withTimeout (request av (store_getMetadata tid store))"

definition saveChunk :: "bool \<Rightarrow> availability \<Rightarrow> AudioChunk \<Rightarrow> ChunkStore \<Rightarrow> ChunkStore promise" where
  "saveChunk hasTextDecoder av chunk store =
     (let storedChunk =
            \<lparr> stored_trackId = chunk_trackId chunk, stored_chunkIndex = chunkIndex chunk,
              stored_sampleRate = chunk_sampleRate chunk, stored_length = chunk_length chunk,
              stored_channels = map (float32ArrayToString hasTextDecoder) (channels chunk) \<rparr>
      in withTimeout (request av (store_putChunk storedChunk store)))"

fun decode_channels :: "u16 list list \<Rightarrow> js_error + float32 list list" where
  "decode_channels [] = Inr []"
| "decode_channels (channelStr # rest) =
     (case stringToFloat32Array channelStr of
        Inl e \<Rightarrow> Inl e
      | Inr f32 \<Rightarrow> (case decode_channels rest of Inl e \<Rightarrow> Inl e | Inr others \<Rightarrow> Inr (f32 # others)))"

definition getChunk :: "availability \<Rightarrow> string \<Rightarrow> nat \<Rightarrow> ChunkStore \<Rightarrow> AudioChunk option promise" where
  "getChunk av tid i store =
     withTimeout
       (case request av (store_getChunk tid i store) of
          None \<Rightarrow> None
        | Some (Inl e) \<Rightarrow> Some (Inl e)
        | Some (Inr None) \<Rightarrow> Some (Inr None)
        | Some (Inr (Some storedChunk)) \<Rightarrow>
            (case decode_channels (stored_channels storedChunk) of
               Inl _ \<Rightarrow> None
             | Inr decoded \<Rightarrow>
                 Some (Inr (Some \<lparr> chunk_trackId = stored_trackId storedChunk,
                                    chunkIndex = stored_chunkIndex storedChunk,
                                    chunk_sampleRate = stored_sampleRate storedChunk,
                                    chunk_length = stored_length storedChunk,
                                    channels = decoded \<rparr>))))"

definition getAllMetadata :: "availability \<Rightarrow> ChunkStore \<Rightarrow> AudioMetadata list promise" where
  "getAllMetadata av store = request av (store_getAll store)"

definition getAvailableChunks :: "availability \<Rightarrow> string \<Rightarrow> ChunkStore \<Rightarrow> nat list promise" where
  "getAvailableChunks av tid store =
     request av (sort (map stored_chunkIndex (filter (\<lambda>c. stored_trackId c = tid) (cache_data store))))"

definition removeTrack :: "availability \<Rightarrow> string \<Rightarrow> ChunkStore \<Rightarrow> ChunkStore promise" where
  "removeTrack av tid store =
     (case request av (store_deleteMetadata tid store) of
        None \<Rightarrow> None
      | Some (Inl e) \<Rightarrow> Some (Inl e)
      | Some (Inr store1) \<Rightarrow> request av (store_deleteChunks tid store1))"

definition empty_store :: ChunkStore where
  "empty_store = \<lparr> cache_meta = [], cache_data = [] \<rparr>"

definition surrogate_chunk :: AudioChunk where
  "surrogate_chunk =
     \<lparr> chunk_trackId = ''t'', chunkIndex = 0, chunk_sampleRate = 44100, chunk_length = 1,
       channels = [[0x3F00D800]] \<rparr>"

text \<open>
  Claim C3 fails on the TextDecoder path. The sample with the bit pattern 3F00D800
  (0.5 + 55296 / 2^24, about 0.5033) has the code units D800, 3F00: a high surrogate that
  no low surrogate follows. The decoder replaces it by FFFD, and the sample read back has
  the bit pattern 3F00FFFD. The same happens through \<open>saveChunk\<close> and \<open>getChunk\<close>.
\<close>

theorem text_decoder_changes_sample:
  "float32ArrayToString True [0x3F00D800] = [0xFFFD, 0x3F00] \<and>
   stringToFloat32Array (float32ArrayToString True [0x3F00D800]) = Inr [0x3F00FFFD] \<and>
   (\<exists>store. saveChunk True Responsive surrogate_chunk empty_store = Some (Inr store) \<and>
            getChunk Responsive ''t'' 0 store
              = Some (Inr (Some (surrogate_chunk\<lparr> channels := [[0x3F00FFFD]] \<rparr>))))"
proof -
  have enc: "float32ArrayToString True [0x3F00D800] = [0xFFFD, 0x3F00]"
    by (simp add: float32ArrayToString_def float32_units_def TextDecoder_decode_def)
  have dec: "stringToFloat32Array [0xFFFD, 0x3F00] = Inr [0x3F00FFFD]"
    by (simp add: stringToFloat32Array_def units_float32_def)
  show ?thesis
    by (simp add: enc dec saveChunk_def getChunk_def surrogate_chunk_def empty_store_def
        withTimeout_def request_def store_putChunk_def store_getChunk_def)
qed

text \<open>
  The sibling path, \<open>String.fromCharCode\<close> on a platform without TextDecoder, keeps every
  code unit, and there the samples read back are the samples written, for every array.
\<close>

lemma units_round_trip: "units_float32 (ucast w) (ucast (drop_bit 16 w)) = w"
  unfolding units_float32_def
  by (rule bit_word_eqI) (auto simp: bit_simps)

lemma fromCharCode_chunks_eq:
  "fromCharCode_chunks units i str = str @ drop i units"
proof (induction units i str rule: fromCharCode_chunks.induct)
  case (1 units i str)
  show ?case
  proof (cases "i < length units")
    case True
    have piece: "take (min (i + 10000) (length units) - i) (drop i units) = take 10000 (drop i units)"
      by (cases "i + 10000 \<le> length units") (simp_all add: min_def)
    have rest: "drop (i + 10000) units = drop 10000 (drop i units)"
      by (simp add: add.commute)
    have "fromCharCode_chunks units i str
          = fromCharCode_chunks units (i + 10000)
              (str @ take (min (i + 10000) (length units) - i) (drop i units))"
      using True by (subst fromCharCode_chunks.simps) simp
    also have "\<dots> = (str @ take (min (i + 10000) (length units) - i) (drop i units))
                       @ drop (i + 10000) units"
      by (rule "1.IH" [OF True])
    also have "\<dots> = str @ drop i units"
      by (simp only: piece rest append_assoc append_take_drop_id)
    finally show ?thesis .
  next
    case False
    then show ?thesis by (subst fromCharCode_chunks.simps) simp
  qed
qed

lemma float32_view_units: "float32_view (concat (map float32_units f32)) = f32"
  by (induction f32) (simp_all add: float32_units_def units_round_trip)

lemma even_length_units: "even (length (concat (map float32_units f32)))"
  by (induction f32) (simp_all add: float32_units_def)

lemma fallback_round_trip:
  "stringToFloat32Array (float32ArrayToString False f32) = Inr f32"
proof -
  have "fromCharCode_chunks (concat (map float32_units f32)) 0 [] = concat (map float32_units f32)"
    by (simp add: fromCharCode_chunks_eq)
  then show ?thesis
    by (simp add: float32ArrayToString_def stringToFloat32Array_def Let_def
        float32_view_units even_length_units)
qed

text \<open>
  Claim C9 fails for enumeration and bulk deletion. When the database fires neither
  \<open>onsuccess\<close> nor \<open>onerror\<close>, the four wrapped methods reject with the timeout error,
  which a caller can tell from the \<open>null\<close> of a record that is not there; but
  \<open>getAllMetadata\<close>, \<open>removeTrack\<close> and \<open>getAvailableChunks\<close> have no timer and never
  settle.
\<close>

theorem unwrapped_operations_never_settle:
  "getMetadata Hung tid store = Some (Inl OperationTimeout) \<and>
   saveMetadata Hung metadata store = Some (Inl OperationTimeout) \<and>
   getChunk Hung tid i store = Some (Inl OperationTimeout) \<and>
   saveChunk hasTextDecoder Hung chunk store = Some (Inl OperationTimeout) \<and>
   getMetadata Responsive tid empty_store = Some (Inr None) \<and>
   getAllMetadata Hung store = None \<and>
   removeTrack Hung tid store = None \<and>
   getAvailableChunks Hung tid store = None"
  by (simp add: getMetadata_def saveMetadata_def getChunk_def saveChunk_def getAllMetadata_def
      removeTrack_def getAvailableChunks_def withTimeout_def request_def Let_def
      store_getMetadata_def empty_store_def)

subsection \<open>Eviction\<close>






























subsection \<open>Splitting a decoded buffer into chunks and merging chunks\<close>
























section \<open>Realtime playback engine (audio-worklet-processor.js)\<close>

text \<open>
  The state of AudioPlaybackProcessor and its message handler. A JavaScript number that
  holds a time or a rate is a rational here, so that \<open>Math.floor\<close> and \<open>Math.round\<close>
  are the exact functions; sample counts and the sample cursor are integers. A division by
  a sample rate of 0 gives Infinity or NaN in JavaScript and 0 here: only \<open>duration\<close> and
  the early-stop time are computed by such a division, and no statement below depends on
  their value. \<open>None\<close> is \<open>null\<close> or \<open>undefined\<close>; \<open>truthy_id\<close> is the truth value
  of a track id in a condition (\<open>null\<close>, \<open>undefined\<close> and the empty string are false),
  and \<open>or_null\<close> is \<open>x || null\<close> on a number. \<open>pendingChunkedBuffers\<close> holds the
  keys of the map of that name. \<open>posted\<close> lists the messages sent to the main thread.
  The messages that only read the state, and the chunked transfer of a buffer, are not
  part of the model.
\<close>

record ScheduledBuffer =
  sb_trackId :: "string option"
  sb_channelData :: "float32 list list"
  sb_sampleRate :: rat
  sb_numberOfChannels :: nat
  sb_totalSamples :: int
  sb_duration :: rat
  sb_switchTime :: "rat option"
  sb_earlyStopTime :: "rat option"

datatype port_message =
  BUFFER_SWITCHED nat rat rat
  | ENDED
  | TIME_UPDATE rat rat

record AudioPlaybackProcessor =
  isPlaying :: bool
  volume :: rat
  currentTime :: rat
  duration :: rat
  audioChannelData :: "float32 list list option"
  sampleRate :: rat
  numberOfChannels :: nat
  totalSamples :: int
  bufferSourcePosition :: int
  scheduledBuffers :: "ScheduledBuffer list"
  currentBufferIndex :: nat
  nextSwitchTime :: "rat option"
  currentBufferEarlyStopTime :: "rat option"
  currentTrackId :: "string option"
  pendingChunkedBuffers :: "string list"
  hasLoggedEarlyStopContinue :: bool
  isIOSSafari :: bool
  iosSampleRate :: "rat option"
  posted :: "port_message list"

definition new_processor :: AudioPlaybackProcessor where
  "new_processor =
     \<lparr> isPlaying = False, volume = 1, currentTime = 0, duration = 0,
       audioChannelData = None, sampleRate = 0, numberOfChannels = 0, totalSamples = 0,
       bufferSourcePosition = 0, scheduledBuffers = [], currentBufferIndex = 0,
       nextSwitchTime = None, currentBufferEarlyStopTime = None, currentTrackId = None,
       pendingChunkedBuffers = [], hasLoggedEarlyStopContinue = False,
       isIOSSafari = False, iosSampleRate = None, posted = [] \<rparr>"

definition truthy_id :: "string option \<Rightarrow> bool" where
  "truthy_id t \<longleftrightarrow> t \<noteq> None \<and> t \<noteq> Some []"

definition or_null :: "rat option \<Rightarrow> rat option" where
  "or_null x = (if x = Some 0 then None else x)"

definition effective_sampleRate :: "AudioPlaybackProcessor \<Rightarrow> rat \<Rightarrow> rat" where
  "effective_sampleRate s dataRate =
     (case iosSampleRate s of
        Some rate \<Rightarrow> if isIOSSafari s \<and> rate \<noteq> 0 then rate else dataRate
      | None \<Rightarrow> dataRate)"

definition clearChunkedBuffersForTrack :: "string option \<Rightarrow> AudioPlaybackProcessor \<Rightarrow> AudioPlaybackProcessor" where
  "clearChunkedBuffersForTrack t s =
     (case t of
        None \<Rightarrow> s
      | Some tid \<Rightarrow> if tid = [] then s
                    else s\<lparr> pendingChunkedBuffers := removeAll tid (pendingChunkedBuffers s) \<rparr>)"

definition autoResetForNewSong :: "string option \<Rightarrow> AudioPlaybackProcessor \<Rightarrow> AudioPlaybackProcessor" where
  "autoResetForNewSong newTrackId s =
     (let s1 = s\<lparr> scheduledBuffers := [], currentBufferIndex := 0, nextSwitchTime := None,
                   currentBufferEarlyStopTime := None, hasLoggedEarlyStopContinue := False \<rparr>;
          s2 = clearChunkedBuffersForTrack (currentTrackId s1) s1
      in s2\<lparr> currentTrackId := newTrackId \<rparr>)"

record BufferData =
  bd_trackId :: "string option"
  bd_channelData :: "float32 list list"
  bd_sampleRate :: rat
  bd_numberOfChannels :: nat
  bd_totalSamples :: int

datatype message =
  SET_BUFFER BufferData
  | PLAY
  | PAUSE
  | SEEK rat
  | REPLACE_BUFFER BufferData "rat option"
  | SET_VOLUME rat
  | SCHEDULE_BUFFER_SWITCH BufferData "rat option" "rat option"
  | IOS_CONFIG bool "rat option"

definition set_buffer :: "BufferData \<Rightarrow> AudioPlaybackProcessor \<Rightarrow> AudioPlaybackProcessor" where
  "set_buffer d s =
     (let newTrackId = bd_trackId d;
          s1 = (if truthy_id (currentTrackId s) \<and> currentTrackId s \<noteq> newTrackId
                then autoResetForNewSong newTrackId s
                else if \<not> truthy_id (currentTrackId s) then s\<lparr> currentTrackId := newTrackId \<rparr>
                else s);
          rate = effective_sampleRate s1 (bd_sampleRate d);
          dur = of_int (bd_totalSamples d) / rate
      in s1\<lparr> audioChannelData := Some (bd_channelData d),
              sampleRate := rate,
              numberOfChannels := bd_numberOfChannels d,
              totalSamples := bd_totalSamples d,
              duration := dur,
              currentBufferEarlyStopTime := Some (max 0 (dur - 3 / 4)),
              bufferSourcePosition := 0,
              currentTime := 0 \<rparr>)"

definition seek :: "rat \<Rightarrow> AudioPlaybackProcessor \<Rightarrow> AudioPlaybackProcessor" where
  "seek t s =
     (if audioChannelData s \<noteq> None \<and> sampleRate s \<noteq> 0
      then s\<lparr> bufferSourcePosition := \<lfloor>t * sampleRate s\<rfloor>, currentTime := t \<rparr>
      else s)"

definition replace_buffer :: "BufferData \<Rightarrow> rat option \<Rightarrow> AudioPlaybackProcessor \<Rightarrow> AudioPlaybackProcessor" where
  "replace_buffer d currentPosition s =
     (if truthy_id (currentTrackId s) \<and> bd_trackId d \<noteq> currentTrackId s then s
      else
        let rate = effective_sampleRate s (bd_sampleRate d);
            dur = of_int (bd_totalSamples d) / rate;
            pos = (case currentPosition of
                     Some p \<Rightarrow> min \<lfloor>p * rate\<rfloor> (bd_totalSamples d - 1)
                   | None \<Rightarrow> min (bufferSourcePosition s) (bd_totalSamples d - 1))
        in s\<lparr> audioChannelData := Some (bd_channelData d),
               sampleRate := rate,
               numberOfChannels := bd_numberOfChannels d,
               totalSamples := bd_totalSamples d,
               duration := dur,
               currentBufferEarlyStopTime := Some (max 0 (dur - 3 / 4)),
               bufferSourcePosition := pos,
               currentTime := of_int pos / rate \<rparr>)"

definition schedule_buffer_switch ::
  "BufferData \<Rightarrow> rat option \<Rightarrow> rat option \<Rightarrow> AudioPlaybackProcessor \<Rightarrow> AudioPlaybackProcessor" where
  "schedule_buffer_switch d switchTime earlyStopTime s =
     (if truthy_id (currentTrackId s) \<and> bd_trackId d \<noteq> currentTrackId s then s
      else
        let bufferData = \<lparr> sb_trackId = bd_trackId d, sb_channelData = bd_channelData d,
                           sb_sampleRate = bd_sampleRate d,
                           sb_numberOfChannels = bd_numberOfChannels d,
                           sb_totalSamples = bd_totalSamples d,
                           sb_duration = of_int (bd_totalSamples d) / bd_sampleRate d,
                           sb_switchTime = or_null switchTime,
                           sb_earlyStopTime = or_null earlyStopTime \<rparr>;
            s1 = s\<lparr> scheduledBuffers := scheduledBuffers s @ [bufferData] \<rparr>
        in if length (scheduledBuffers s1) = currentBufferIndex s1 + 1
           then (if sb_switchTime bufferData = Some 0
                 then s1\<lparr> currentBufferIndex := 0, nextSwitchTime := None \<rparr>
                 else s1\<lparr> nextSwitchTime := sb_switchTime bufferData \<rparr>)
           else s1)"

fun onmessage :: "message \<Rightarrow> AudioPlaybackProcessor \<Rightarrow> AudioPlaybackProcessor" where
  "onmessage (SET_BUFFER d) s = set_buffer d s"
| "onmessage PLAY s = s\<lparr> isPlaying := True \<rparr>"
| "onmessage PAUSE s = s\<lparr> isPlaying := False \<rparr>"
| "onmessage (SEEK t) s = seek t s"
| "onmessage (REPLACE_BUFFER d p) s = replace_buffer d p s"
| "onmessage (SET_VOLUME v) s = s\<lparr> volume := max 0 (min 1 v) \<rparr>"
| "onmessage (SCHEDULE_BUFFER_SWITCH d sw es) s = schedule_buffer_switch d sw es s"
| "onmessage (IOS_CONFIG ios rate) s = s\<lparr> isIOSSafari := ios, iosSampleRate := rate \<rparr>"

definition performBufferSwitch :: "AudioPlaybackProcessor \<Rightarrow> AudioPlaybackProcessor" where
  "performBufferSwitch s =
     (if currentBufferIndex s + 1 \<ge> length (scheduledBuffers s)
      then s\<lparr> nextSwitchTime := None \<rparr>
      else
        let nextBuffer = scheduledBuffers s ! (currentBufferIndex s + 1)
        in if truthy_id (currentTrackId s) \<and> sb_trackId nextBuffer \<noteq> currentTrackId s
           then s\<lparr> nextSwitchTime := None \<rparr>
           else
             let s1 = s\<lparr> audioChannelData := Some (sb_channelData nextBuffer),
                          sampleRate := sb_sampleRate nextBuffer,
                          numberOfChannels := sb_numberOfChannels nextBuffer,
                          totalSamples := sb_totalSamples nextBuffer,
                          duration := sb_duration nextBuffer,
                          currentBufferEarlyStopTime := Some (max 0 (sb_duration nextBuffer - 3 / 4)) \<rparr>;
                 currentSamplePosition = \<lfloor>currentTime s1 * sampleRate s1\<rfloor>;
                 s2 = s1\<lparr> bufferSourcePosition := min currentSamplePosition (totalSamples s1 - 1),
                           currentBufferIndex := currentBufferIndex s1 + 1 \<rparr>;
                 s3 = (if currentBufferIndex s2 + 1 < length (scheduledBuffers s2)
                       then s2\<lparr> nextSwitchTime :=
                                  sb_switchTime (scheduledBuffers s2 ! (currentBufferIndex s2 + 1)) \<rparr>
                       else s2\<lparr> nextSwitchTime := None \<rparr>)
             in s3\<lparr> posted := posted s3 @
                       [BUFFER_SWITCHED (currentBufferIndex s3) (duration s3) (currentTime s3)] \<rparr>)"


text \<open>
  A session for the examples: a buffer of 10 s at 44100 Hz is set and scheduled as buffer
  0, a larger buffer of the same track at 48000 Hz is scheduled as buffer 1, playback is
  started and the cursor is moved to 9.500012 s, past the early-stop time 9.25 s of the
  active buffer, so that the next render tick switches buffers.
\<close>

definition first_buffer :: BufferData where
  "first_buffer = \<lparr> bd_trackId = Some ''song'', bd_channelData = [replicate 4 0],
                    bd_sampleRate = 44100, bd_numberOfChannels = 1, bd_totalSamples = 441000 \<rparr>"



lemmas processor_defs = set_buffer_def seek_def schedule_buffer_switch_def new_processor_def
  truthy_id_def or_null_def effective_sampleRate_def autoResetForNewSong_def
  clearChunkedBuffersForTrack_def performBufferSwitch_def Let_def






text \<open>
  Claim C6, as amended. \<open>SET_BUFFER\<close> always moves the sample cursor and the current time
  to 0 (the message carries no target position). It empties the queue of scheduled buffers
  when a current track id is set and differs from the track id of the new buffer; when the
  track id is the same, or none is set yet, the queue is left as it is.
\<close>

theorem set_buffer_resets_cursor:
  "bufferSourcePosition (onmessage (SET_BUFFER d) s) = 0 \<and>
   currentTime (onmessage (SET_BUFFER d) s) = 0 \<and>
   scheduledBuffers (onmessage (SET_BUFFER d) s)
     = (if truthy_id (currentTrackId s) \<and> currentTrackId s \<noteq> bd_trackId d
        then [] else scheduledBuffers s)"
  by (simp add: set_buffer_def Let_def autoResetForNewSong_def clearChunkedBuffersForTrack_def
      split: option.splits)


text \<open>
  Claim C6 as stated fails when the track id does not change: a buffer scheduled for the
  current track is still in the queue after a second \<open>SET_BUFFER\<close> for the same track.
\<close>

theorem set_buffer_keeps_queue_counterexample:
  "scheduledBuffers
     (onmessage (SET_BUFFER first_buffer)
       (onmessage (SCHEDULE_BUFFER_SWITCH first_buffer (Some 5) None)
         (onmessage (SET_BUFFER first_buffer) new_processor))) \<noteq> []"
  by (simp add: first_buffer_def processor_defs)


end
